theory Spec2Isabelle
  imports Complex_Main "HOL-Library.Word"
begin

section \<open>The Dumpulse UDP client (client.py)\<close>

text \<open>
  Python values are modelled as follows: a \<open>bytes\<close> object is a list of 8-bit words, a
  Python integer is an \<open>int\<close>, an exception that reaches the caller is the left summand
  of a result, and a socket is a record holding its timeout setting, the calls made on it
  so far and what its environment answers to each call.
\<close>

type_synonym byte = "8 word"
type_synonym bytes = "byte list"

text \<open>
  The exceptions the module can raise or pass on: \<open>struct.error\<close> (from \<open>struct.pack\<close> and
  \<open>struct.unpack\<close>), the \<open>ValueError\<close> of \<open>variable_settings\<close> with its three arguments,
  \<open>socket.timeout\<close>, and any other exception a socket call raises, named by a number.
\<close>

datatype exn =
    struct_error
  | ValueError bytes int int
  | socket_timeout
  | other_exception nat

subsection \<open>The struct formats the module uses\<close>

text \<open>\<open>struct.pack("BBBB", a, b, c, d)\<close>: each argument must lie in 0..255.\<close>

definition ubyte_ok :: "int \<Rightarrow> bool" where
  "ubyte_ok n = (0 \<le> n \<and> n \<le> 255)"

definition pack_BBBB :: "int \<Rightarrow> int \<Rightarrow> int \<Rightarrow> int \<Rightarrow> exn + bytes" where
  "pack_BBBB a b c d =
     (if ubyte_ok a \<and> ubyte_ok b \<and> ubyte_ok c \<and> ubyte_ok d
      then Inr [word_of_int a, word_of_int b, word_of_int c, word_of_int d]
      else Inl struct_error)"

text \<open>\<open>struct.pack(">L", n)\<close>: four bytes, most significant first; \<open>n\<close> must fit 32 bits.\<close>

definition pack_L :: "int \<Rightarrow> exn + bytes" where
  "pack_L n =
     (if 0 \<le> n \<and> n < 2 ^ 32
      then Inr [word_of_int (n div 2 ^ 24), word_of_int (n div 2 ^ 16),
                word_of_int (n div 2 ^ 8), word_of_int n]
      else Inl struct_error)"

text \<open>\<open>struct.unpack(">L", b)\<close>: the buffer must hold exactly four bytes.\<close>

fun unpack_L :: "bytes \<Rightarrow> exn + int" where
  "unpack_L [b3, b2, b1, b0] =
     Inr (uint b3 * 2 ^ 24 + uint b2 * 2 ^ 16 + uint b1 * 2 ^ 8 + uint b0)"
| "unpack_L _ = Inl struct_error"

text \<open>\<open>struct.unpack(">HBB", b)\<close>: a big-endian 16-bit value and two bytes, from exactly
  four bytes.\<close>

fun unpack_HBB :: "bytes \<Rightarrow> exn + (int \<times> int \<times> int)" where
  "unpack_HBB [t1, t0, s, v] = Inr (uint t1 * 2 ^ 8 + uint t0, uint s, uint v)"
| "unpack_HBB _ = Inl struct_error"

subsection \<open>The checksum\<close>

text \<open>
  \<open>zlib.adler32\<close> is the Adler-32 checksum of RFC 1950: two sums modulo 65521, the first
  starting at 1, the second (the sum of the values the first takes) in the upper half of
  the result. Python 3 returns it unsigned, Python 2 as a signed 32-bit value.
\<close>

definition adler_step :: "int \<times> int \<Rightarrow> byte \<Rightarrow> int \<times> int" where
  "adler_step s x =
     (let a = (fst s + uint x) mod 65521 in (a, (snd s + a) mod 65521))"

definition zlib_adler32 :: "bytes \<Rightarrow> int" where
  "zlib_adler32 data = (let s = foldl adler_step (1, 0) data in snd s * 65536 + fst s)"

definition zlib_adler32_py2 :: "bytes \<Rightarrow> int" where
  "zlib_adler32_py2 data =
     (let c = zlib_adler32 data in if c < 2 ^ 31 then c else c - 2 ^ 32)"

text \<open>\<open>adler32(data)\<close>: \<open>zlib.adler32(data) % 2**32\<close>.\<close>

definition adler32 :: "bytes \<Rightarrow> int" where
  "adler32 data = zlib_adler32 data mod 2 ^ 32"

text \<open>The same function on an interpreter whose \<open>zlib.adler32\<close> is signed.\<close>

definition adler32_py2 :: "bytes \<Rightarrow> int" where
  "adler32_py2 data = zlib_adler32_py2 data mod 2 ^ 32"

subsection \<open>Decoding a health report\<close>

text \<open>\<open>range(n)\<close> for a Python integer \<open>n\<close>: empty when \<open>n\<close> is not positive.\<close>

definition py_range :: "int \<Rightarrow> nat list" where
  "py_range n = [0..<nat n]"

text \<open>The slice \<open>p[i:][:4]\<close> for a non-negative \<open>i\<close>.\<close>

definition slice4 :: "bytes \<Rightarrow> nat \<Rightarrow> bytes" where
  "slice4 p i = take 4 (drop i p)"

text \<open>
  Running a generator to its end, as \<open>list(...)\<close> does: the values yielded, or the first
  exception raised while producing one.
\<close>

primrec collect :: "(nat \<Rightarrow> exn + 'a) \<Rightarrow> nat list \<Rightarrow> exn + 'a list" where
  "collect f [] = Inr []"
| "collect f (v # vs) =
     (case f v of
        Inl e \<Rightarrow> Inl e
      | Inr y \<Rightarrow> (case collect f vs of Inl e \<Rightarrow> Inl e | Inr ys \<Rightarrow> Inr (y # ys)))"

type_synonym setting = "int \<times> int \<times> int \<times> int"

text \<open>The body of the loop of \<open>_variable_settings\<close> for one \<open>v\<close>.\<close>

definition setting_at :: "bytes \<Rightarrow> nat \<Rightarrow> exn + setting" where
  "setting_at p v =
     (case unpack_HBB (slice4 p (4 * (v + 1))) of
        Inl e \<Rightarrow> Inl e
      | Inr (timestamp, sender, val) \<Rightarrow> Inr (int v, timestamp, sender, val))"

text \<open>
  The generator \<open>_variable_settings\<close>, run to its end as \<open>list(_variable_settings(p))\<close>
  does in \<open>parse_health_report\<close> (an Isabelle name cannot begin with an underscore).
\<close>

definition variable_settings_list :: "bytes \<Rightarrow> exn + setting list" where
  "variable_settings_list p = collect (setting_at p) (py_range (int (length p) div 4 - 1))"

text \<open>\<open>parse_health_report\<close>: the checksum field is unpacked first, then the settings
  are listed and the checksum of the rest is computed.\<close>

definition parse_health_report :: "bytes \<Rightarrow> exn + (setting list \<times> int \<times> int)" where
  "parse_health_report p =
     (case unpack_L (take 4 p) of
        Inl e \<Rightarrow> Inl e
      | Inr checksum \<Rightarrow>
          (case variable_settings_list p of
             Inl e \<Rightarrow> Inl e
           | Inr settings \<Rightarrow> Inr (settings, adler32 (drop 4 p), checksum)))"

text \<open>\<open>variable_settings\<close>: the strict decoder.\<close>

definition variable_settings :: "bytes \<Rightarrow> exn + setting list" where
  "variable_settings health_report_bytes =
     (case parse_health_report health_report_bytes of
        Inl e \<Rightarrow> Inl e
      | Inr (settings, expected, received) \<Rightarrow>
          if expected \<noteq> received
          then Inl (ValueError health_report_bytes expected received)
          else Inr settings)"

subsection \<open>Encoding a set request\<close>

definition set_packet :: "int \<Rightarrow> int \<Rightarrow> int \<Rightarrow> exn + bytes" where
  "set_packet variable sender val =
     (case pack_BBBB 241 variable sender val of
        Inl e \<Rightarrow> Inl e
      | Inr payload \<Rightarrow>
          (case pack_L (adler32 payload) of
             Inl e \<Rightarrow> Inl e
           | Inr prefix \<Rightarrow> Inr (prefix @ payload)))"

subsection \<open>The socket\<close>

text \<open>
  The module is handed a connected datagram socket and uses four of its methods. The
  record keeps the timeout setting, the calls made so far (oldest first), and the
  environment: what a \<open>send\<close> or a \<open>recv\<close> does when it is call number \<open>n\<close> on the
  socket. \<open>send_answer\<close> gives the exception a \<open>send\<close> raises, if any; \<open>recv_answer\<close> the
  exception a \<open>recv\<close> raises or the datagram waiting for it. A timeout is \<open>None\<close> or a
  number of seconds.
\<close>

datatype call = SetTimeout "rat option" | Send bytes | Recv nat

record sock =
  timeout :: "rat option"
  calls :: "call list"
  send_answer :: "nat \<Rightarrow> exn option"
  recv_answer :: "nat \<Rightarrow> exn + bytes"

definition gettimeout :: "sock \<Rightarrow> rat option" where
  "gettimeout s = timeout s"

definition settimeout :: "sock \<Rightarrow> rat option \<Rightarrow> sock" where
  "settimeout s t = s\<lparr>timeout := t, calls := calls s @ [SetTimeout t]\<rparr>"

definition send :: "sock \<Rightarrow> bytes \<Rightarrow> (exn + unit) \<times> sock" where
  "send s data =
     ((case send_answer s (length (calls s)) of None \<Rightarrow> Inr () | Some e \<Rightarrow> Inl e),
      s\<lparr>calls := calls s @ [Send data]\<rparr>)"

text \<open>\<open>recv(bufsize)\<close> returns at most \<open>bufsize\<close> bytes of the datagram.\<close>

definition recv :: "sock \<Rightarrow> nat \<Rightarrow> (exn + bytes) \<times> sock" where
  "recv s bufsize =
     ((case recv_answer s (length (calls s)) of
         Inl e \<Rightarrow> Inl e
       | Inr p \<Rightarrow> Inr (take bufsize p)),
      s\<lparr>calls := calls s @ [Recv bufsize]\<rparr>)"

text \<open>The payloads handed to \<open>send\<close>, in order.\<close>

fun sends :: "call list \<Rightarrow> bytes list" where
  "sends [] = []"
| "sends (Send b # cs) = b # sends cs"
| "sends (c # cs) = sends cs"

subsection \<open>Requesting a health report\<close>

definition query_packet :: bytes where
  "query_packet = map (\<lambda>c. word_of_nat (of_char c)) ''AreyouOK''"

text \<open>
  The retry interval is a Python float. A float operation returns the exact result
  rounded, so the model computes on rationals and takes the rounding \<open>fl\<close> of the host as
  a parameter: it is applied to the literal \<open>1.4142\<close> and to every product. The
  literals \<open>0.25\<close> and \<open>16\<close> are binary fractions and need none. \<open>float_rounding\<close> is what
  the theorems ask of \<open>fl\<close>: a relative error of at most \<open>2\<^sup>-\<^sup>5\<^sup>2\<close> on the numbers between
  \<open>1/4\<close> and \<open>32\<close>; round-to-nearest in IEEE binary64 has half that error there, and
  exact arithmetic (\<open>fl x = x\<close>) has none.
\<close>

definition float_rounding :: "(rat \<Rightarrow> rat) \<Rightarrow> bool" where
  "float_rounding fl = (\<forall>x. 1 / 4 \<le> x \<and> x \<le> 32 \<longrightarrow> \<bar>fl x - x\<bar> \<le> x / 2 ^ 52)"

definition retry_delay_factor :: "(rat \<Rightarrow> rat) \<Rightarrow> rat" where
  "retry_delay_factor fl = fl (14142 / 10000)"

definition max_retry_interval :: rat where
  "max_retry_interval = 16"

text \<open>The body of the inner \<open>try\<close>: \<open>send\<close>, then \<open>recv\<close> unless \<open>send\<close> raised.\<close>

definition attempt :: "sock \<Rightarrow> (exn + bytes) \<times> sock" where
  "attempt s =
     (case send s query_packet of
        (Inl e, s') \<Rightarrow> (Inl e, s')
      | (Inr u, s') \<Rightarrow> recv s' 2048)"

text \<open>
  The \<open>while True\<close> loop. Its result is what leaves the loop, an exception or the value
  returned (\<open>None\<close> for Python's \<open>None\<close>), with the socket as the loop left it; the
  loop not ending is the value \<open>None\<close> of the outer option.
\<close>

partial_function (option) retry_loop ::
  "(rat \<Rightarrow> rat) \<Rightarrow> rat \<Rightarrow> sock \<Rightarrow> ((exn + bytes option) \<times> sock) option" where
  "retry_loop fl retry_interval s =
     (case attempt (settimeout s (Some retry_interval)) of
        (Inr p, s') \<Rightarrow> Some (Inr (Some p), s')
      | (Inl e, s') \<Rightarrow>
          if e = socket_timeout then
            (let r = fl (retry_interval * retry_delay_factor fl) in
             if r > max_retry_interval then Some (Inr None, s')
             else retry_loop fl r s')
          else Some (Inl e, s'))"

text \<open>\<open>get_health_report\<close>: the loop inside \<open>try\<close> ... \<open>finally\<close>.\<close>

definition get_health_report ::
  "(rat \<Rightarrow> rat) \<Rightarrow> sock \<Rightarrow> ((exn + bytes option) \<times> sock) option" where
  "get_health_report fl s =
     (let saved = gettimeout s in
      case retry_loop fl (1 / 4) s of
        None \<Rightarrow> None
      | Some (res, s') \<Rightarrow> Some (res, settimeout s' saved))"

text \<open>The value of \<open>retry_interval\<close> after \<open>k\<close> timeouts.\<close>

definition interval :: "(rat \<Rightarrow> rat) \<Rightarrow> nat \<Rightarrow> rat" where
  "interval fl k = ((\<lambda>r. fl (r * retry_delay_factor fl)) ^^ k) (1 / 4)"

text \<open>The calls of one attempt that sends, waits for the interval \<open>r\<close> and times out.\<close>

definition timed_out_attempt_calls :: "rat \<Rightarrow> call list" where
  "timed_out_attempt_calls r = [SetTimeout (Some r), Send query_packet, Recv 2048]"

subsection \<open>Sending a set request\<close>

text \<open>\<open>set_variable\<close>: the packet is built first, then sent.\<close>

definition set_variable :: "sock \<Rightarrow> int \<Rightarrow> int \<Rightarrow> int \<Rightarrow> (exn + unit) \<times> sock" where
  "set_variable s variable sender val =
     (case set_packet variable sender val of
        Inl e \<Rightarrow> (Inl e, s)
      | Inr packet \<Rightarrow> send s packet)"

text \<open>Three sockets for examples: one whose peer never answers, one whose peer answers
  the third query, and one with no answer to the first query and a fault at the second
  \<open>recv\<close>.\<close>

definition silent :: sock where
  "silent = \<lparr>timeout = Some 5, calls = [], send_answer = (\<lambda>n. None),
             recv_answer = (\<lambda>n. Inl socket_timeout)\<rparr>"

definition answering :: sock where
  "answering = \<lparr>timeout = Some 2, calls = [], send_answer = (\<lambda>n. None),
                recv_answer = (\<lambda>n. if n < 8 then Inl socket_timeout
                                    else Inr [5, 55, 2, 11, 241, 5, 76, 200])\<rparr>"

definition faulty :: sock where
  "faulty = \<lparr>timeout = None, calls = [], send_answer = (\<lambda>n. None),
             recv_answer = (\<lambda>n. if n < 3 then Inl socket_timeout else Inl (other_exception 111))\<rparr>"

section \<open>The checksum is a 32-bit unsigned value\<close>

lemma adler_fold_range:
  "0 \<le> fst s \<Longrightarrow> fst s < 65521 \<Longrightarrow> 0 \<le> snd s \<Longrightarrow> snd s < 65521 \<Longrightarrow>
   0 \<le> fst (foldl adler_step s data) \<and> fst (foldl adler_step s data) < 65521 \<and>
   0 \<le> snd (foldl adler_step s data) \<and> snd (foldl adler_step s data) < 65521"
proof (induction data arbitrary: s)
  case Nil
  then show ?case by simp
next
  case (Cons x xs)
  have "0 \<le> fst (adler_step s x)" "fst (adler_step s x) < 65521"
       "0 \<le> snd (adler_step s x)" "snd (adler_step s x) < 65521"
    by (simp_all add: adler_step_def Let_def)
  from Cons.IH [OF this] show ?case by simp
qed

lemma zlib_adler32_range: "0 \<le> zlib_adler32 data \<and> zlib_adler32 data < 2 ^ 32"
proof -
  let ?s = "foldl adler_step (1, 0) data"
  have r: "0 \<le> fst ?s \<and> fst ?s < 65521 \<and> 0 \<le> snd ?s \<and> snd ?s < 65521"
    by (rule adler_fold_range) simp_all
  then have "snd ?s * 65536 \<le> 65520 * 65536" by simp
  with r show ?thesis by (simp add: zlib_adler32_def Let_def)
qed

lemma adler32_unsigned: "adler32 data = zlib_adler32 data"
  using zlib_adler32_range [of data] by (simp add: adler32_def)

lemma adler32_range: "0 \<le> adler32 data \<and> adler32 data < 2 ^ 32"
  by (simp add: adler32_def)

lemma adler32_py2_eq: "adler32_py2 data = adler32 data"
proof -
  have "(zlib_adler32 data - 2 ^ 32) mod 2 ^ 32 = zlib_adler32 data mod 2 ^ 32"
    by (metis mod_diff_right_eq mod_self diff_zero)
  then show ?thesis
    by (simp add: adler32_py2_def zlib_adler32_py2_def adler32_def Let_def)
qed

section \<open>Packing and unpacking\<close>

lemma be32_digits:
  fixes n :: int
  assumes "0 \<le> n" "n < 4294967296"
  shows "(n div 16777216) mod 256 * 16777216 + (n div 65536) mod 256 * 65536
     + (n div 256) mod 256 * 256 + n mod 256 = n"
proof -
  define a where "a = n div 256"
  define b where "b = a div 256"
  define c where "c = b div 256"
  define x where "x = n mod 256"
  define y where "y = a mod 256"
  define z where "z = b mod 256"
  have n: "256 * a + x = n" unfolding a_def x_def by (rule mult_div_mod_eq)
  have a: "256 * b + y = a" unfolding b_def y_def by (rule mult_div_mod_eq)
  have b: "256 * c + z = b" unfolding c_def z_def by (rule mult_div_mod_eq)
  have "n div (256 * 256) = b"
    unfolding b_def a_def by (rule zdiv_zmult2_eq) simp
  then have d16: "n div 65536 = b" by simp
  have "n div (256 * 256 * 256) = c"
    unfolding c_def b_def a_def by (simp only: zdiv_zmult2_eq) 
  then have d24: "n div 16777216 = c" by simp
  have "0 \<le> x" "x < 256" unfolding x_def by simp_all
  have "0 \<le> y" "y < 256" unfolding y_def by simp_all
  have "0 \<le> z" "z < 256" unfolding z_def by simp_all
  have "c < 256" "0 \<le> c" using assms n a b \<open>0 \<le> x\<close> \<open>0 \<le> y\<close> \<open>0 \<le> z\<close> \<open>z < 256\<close> \<open>y < 256\<close> \<open>x < 256\<close> by linarith+
  then have c: "c mod 256 = c" by simp
  have "c * 16777216 + z * 65536 + y * 256 + x = n"
    using n a b by linarith
  then show ?thesis
    unfolding d16 d24 c a_def [symmetric] x_def [symmetric] y_def [symmetric] z_def [symmetric] .
qed


lemma uint_byte_of_int: "uint (word_of_int k :: byte) = k mod 256"
  by (simp add: uint_word_of_int take_bit_eq_mod)

lemma pow2_values:
  "(2::int) ^ 8 = 256" "(2::int) ^ 16 = 65536" "(2::int) ^ 24 = 16777216"
  "(2::int) ^ 32 = 4294967296"
  by simp_all

lemma pack_L_roundtrip:
  assumes "0 \<le> n" "n < 2 ^ 32"
  shows "uint (word_of_int (n div 2 ^ 24) :: byte) * 2 ^ 24 + uint (word_of_int (n div 2 ^ 16) :: byte) * 2 ^ 16
     + uint (word_of_int (n div 2 ^ 8) :: byte) * 2 ^ 8 + uint (word_of_int n :: byte) = n"
  using assms unfolding uint_byte_of_int pow2_values by (rule be32_digits)

lemma unpack_pack_L:
  assumes "0 \<le> n" "n < 2 ^ 32"
  shows "\<exists>b3 b2 b1 b0. pack_L n = Inr [b3, b2, b1, b0] \<and>
           uint b3 * 2 ^ 24 + uint b2 * 2 ^ 16 + uint b1 * 2 ^ 8 + uint b0 = n"
  using assms pack_L_roundtrip [OF assms] by (simp add: pack_L_def)

lemma uint_byte_of_ubyte: "ubyte_ok n \<Longrightarrow> uint (word_of_int n :: byte) = n"
  by (simp add: uint_byte_of_int ubyte_ok_def)

lemma set_packet_shape:
  assumes "ubyte_ok variable" "ubyte_ok sender" "ubyte_ok val"
  shows "\<exists>b3 b2 b1 b0 pv ps px. set_packet variable sender val = Inr [b3, b2, b1, b0, 241, pv, ps, px] \<and>
           uint pv = variable \<and> uint ps = sender \<and> uint px = val \<and>
           uint b3 * 2 ^ 24 + uint b2 * 2 ^ 16 + uint b1 * 2 ^ 8 + uint b0 = adler32 [241, pv, ps, px]"
proof -
  let ?payload = "[241, word_of_int variable, word_of_int sender, word_of_int val] :: bytes"
  have p: "pack_BBBB 241 variable sender val = Inr ?payload"
    using assms by (simp add: pack_BBBB_def ubyte_ok_def)
  have r: "0 \<le> adler32 ?payload" "adler32 ?payload < 2 ^ 32"
    using adler32_range [of ?payload] by simp_all
  from unpack_pack_L [OF r] obtain b3 b2 b1 b0 where
    q: "pack_L (adler32 ?payload) = Inr [b3, b2, b1, b0]"
    and v: "uint b3 * 2 ^ 24 + uint b2 * 2 ^ 16 + uint b1 * 2 ^ 8 + uint b0 = adler32 ?payload"
    by blast
  have "set_packet variable sender val = Inr ([b3, b2, b1, b0] @ ?payload)"
    by (simp add: set_packet_def p q)
  with v assms show ?thesis
    by (simp add: uint_byte_of_ubyte)
qed

lemma unpack_L_fails: "length b \<noteq> 4 \<Longrightarrow> unpack_L b = Inl struct_error"
  by (cases b rule: unpack_L.cases) simp_all

lemma four_elems: "4 \<le> length xs \<Longrightarrow> \<exists>a b c d r. xs = a # b # c # d # r"
  by (auto simp: numeral_eq_Suc Suc_le_length_iff)

lemma nth_four:
  "(a # b # c # d # r) ! 0 = a" "(a # b # c # d # r) ! 1 = b"
  "(a # b # c # d # r) ! 2 = c" "(a # b # c # d # r) ! 3 = d"
  by (simp_all add: numeral_eq_Suc)

lemma unpack_L_four:
  assumes "4 \<le> length p"
  shows "unpack_L (take 4 p) =
     Inr (uint (p ! 0) * 2 ^ 24 + uint (p ! 1) * 2 ^ 16 + uint (p ! 2) * 2 ^ 8 + uint (p ! 3))"
proof -
  from four_elems [OF assms] obtain a b c d r where e: "p = a # b # c # d # r"
    by blast
  have t: "take 4 p = [a, b, c, d]"
    unfolding e by (simp add: numeral_eq_Suc)
  show ?thesis
    unfolding t unfolding e nth_four by (simp only: unpack_L.simps)
qed

lemma slice4_nth:
  assumes "i + 4 \<le> length p"
  shows "slice4 p i = [p ! i, p ! (i + 1), p ! (i + 2), p ! (i + 3)]"
proof -
  have "4 \<le> length (drop i p)" using assms by simp
  from four_elems [OF this] obtain a b c d r where e: "drop i p = a # b # c # d # r"
    by blast
  have n: "p ! (i + k) = (drop i p) ! k" for k using assms by simp
  have t: "take 4 (drop i p) = [a, b, c, d]"
    unfolding e by (simp add: numeral_eq_Suc)
  have "p ! i = a" using n [of 0] unfolding e by simp
  moreover have "p ! (i + 1) = b" unfolding n e nth_four ..
  moreover have "p ! (i + 2) = c" unfolding n e nth_four ..
  moreover have "p ! (i + 3) = d" unfolding n e nth_four ..
  ultimately show ?thesis
    unfolding slice4_def t by simp
qed

lemma collect_map:
  "(\<And>v. v \<in> set vs \<Longrightarrow> f v = Inr (g v)) \<Longrightarrow> collect f vs = Inr (map g vs)"
  by (induction vs) simp_all

lemma setting_at_complete:
  assumes "4 * v + 8 \<le> length p"
  shows "setting_at p v =
     Inr (int v, uint (p ! (4 * v + 4)) * 2 ^ 8 + uint (p ! (4 * v + 5)),
          uint (p ! (4 * v + 6)), uint (p ! (4 * v + 7)))"
proof -
  have "4 * (v + 1) + 4 \<le> length p" using assms by simp
  from slice4_nth [OF this] show ?thesis
    by (simp add: setting_at_def add.commute)
qed

lemma range_bound:
  assumes "4 \<le> length p"
  shows "py_range (int (length p) div 4 - 1) = [0..<(length p - 4) div 4]"
proof -
  have "int (length p) div 4 - 1 = int ((length p - 4) div 4)"
    using assms by (simp add: zdiv_int) 
  then show ?thesis by (simp add: py_range_def)
qed

lemma variable_settings_list_records:
  assumes "4 \<le> length p"
  shows "variable_settings_list p =
     Inr (map (\<lambda>k. (int k, uint (p ! (4 * k + 4)) * 2 ^ 8 + uint (p ! (4 * k + 5)),
                     uint (p ! (4 * k + 6)), uint (p ! (4 * k + 7))))
              [0..<(length p - 4) div 4])"
  unfolding variable_settings_list_def range_bound [OF assms]
proof (rule collect_map)
  fix v assume "v \<in> set [0..<(length p - 4) div 4]"
  then have "v < (length p - 4) div 4" by simp
  then have "4 * v + 8 \<le> length p" using assms by linarith
  then show "setting_at p v =
     (Inr (int v, uint (p ! (4 * v + 4)) * 2 ^ 8 + uint (p ! (4 * v + 5)),
          uint (p ! (4 * v + 6)), uint (p ! (4 * v + 7))))" by (rule setting_at_complete)
qed

lemma parse_health_report_four:
  assumes "4 \<le> length p"
  shows "parse_health_report p =
     Inr (map (\<lambda>k. (int k, uint (p ! (4 * k + 4)) * 2 ^ 8 + uint (p ! (4 * k + 5)),
                     uint (p ! (4 * k + 6)), uint (p ! (4 * k + 7))))
              [0..<(length p - 4) div 4],
          adler32 (drop 4 p),
          uint (p ! 0) * 2 ^ 24 + uint (p ! 1) * 2 ^ 16 + uint (p ! 2) * 2 ^ 8 + uint (p ! 3))"
  unfolding parse_health_report_def unpack_L_four [OF assms]
    variable_settings_list_records [OF assms]
  by simp

lemma adler32_empty: "adler32 [] = 1"
  by (simp add: adler32_def zlib_adler32_def)

lemma adler32_example: "adler32 [241, 5, 76, 200] = 87491083"
  by (simp add: adler32_def zlib_adler32_def adler_step_def)

lemma set_packet_example: "set_packet 5 76 200 = Inr [5, 55, 2, 11, 241, 5, 76, 200]"
  by (simp add: set_packet_def pack_BBBB_def ubyte_ok_def pack_L_def adler32_example)

lemma set_variable_sends:
  "set_variable silent 5 76 200 =
     (Inr (), silent\<lparr>calls := [Send [5, 55, 2, 11, 241, 5, 76, 200]]\<rparr>)"
  by (simp add: set_variable_def set_packet_example send_def silent_def)

section \<open>The retry intervals\<close>

lemma float_rounding_bounds:
  assumes "float_rounding fl" "1 / 4 \<le> x" "x \<le> 32"
  shows "x - x / 2 ^ 52 \<le> fl x" "fl x \<le> x + x / 2 ^ 52"
proof -
  have "\<bar>fl x - x\<bar> \<le> x / 2 ^ 52"
    using assms by (simp add: float_rounding_def)
  then show "x - x / 2 ^ 52 \<le> fl x" "fl x \<le> x + x / 2 ^ 52"
    by linarith+
qed

lemma retry_delay_factor_bounds:
  assumes "float_rounding fl"
  shows "1414199 / 1000000 \<le> retry_delay_factor fl" "retry_delay_factor fl \<le> 1414201 / 1000000"
proof -
  have r: "(1::rat) / 4 \<le> 14142 / 10000" "(14142::rat) / 10000 \<le> 32" by simp_all
  from float_rounding_bounds [OF assms r]
  show "1414199 / 1000000 \<le> retry_delay_factor fl" "retry_delay_factor fl \<le> 1414201 / 1000000"
    unfolding retry_delay_factor_def by simp_all
qed

lemma next_interval_bounds:
  assumes "float_rounding fl" "1 / 4 \<le> r" "r \<le> 16"
  shows "141419 / 100000 * r \<le> fl (r * retry_delay_factor fl)"
    "fl (r * retry_delay_factor fl) \<le> 141421 / 100000 * r"
proof -
  define x where "x = r * retry_delay_factor fl"
  note c = retry_delay_factor_bounds [OF assms(1)]
  have r0: "0 \<le> r" using assms(2) by simp
  have lo: "r * (1414199 / 1000000) \<le> x"
    unfolding x_def using c(1) r0 by (rule mult_left_mono)
  have hi: "x \<le> r * (1414201 / 1000000)"
    unfolding x_def using c(2) r0 by (rule mult_left_mono)
  have x: "1 / 4 \<le> x" "x \<le> 32"
    using lo hi assms(2,3) by linarith+
  have e: "x / 2 ^ 52 = x * (1 / 4503599627370496)" by simp
  from float_rounding_bounds [OF assms(1) x]
  have "x - x * (1 / 4503599627370496) \<le> fl x" "fl x \<le> x + x * (1 / 4503599627370496)"
    unfolding e .
  with lo hi r0
  have "141419 / 100000 * r \<le> fl x" "fl x \<le> 141421 / 100000 * r"
    by linarith+
  then show "141419 / 100000 * r \<le> fl (r * retry_delay_factor fl)"
    "fl (r * retry_delay_factor fl) \<le> 141421 / 100000 * r"
    unfolding x_def .
qed

lemma interval_0: "interval fl 0 = 1 / 4"
  by (simp add: interval_def)

lemma interval_Suc: "interval fl (Suc k) = fl (interval fl k * retry_delay_factor fl)"
  by (simp add: interval_def)

lemma hi_pow_12: "(141421 / 100000 :: rat) ^ 12 \<le> 64"
  by (simp add: power_divide)

lemma lo_pow_13: "(64 :: rat) < (141419 / 100000) ^ 13"
  by (simp add: power_divide)

lemma interval_bounds:
  assumes "float_rounding fl"
  shows "k \<le> 13 \<Longrightarrow>
     (141419 / 100000) ^ k / 4 \<le> interval fl k \<and> interval fl k \<le> (141421 / 100000) ^ k / 4"
proof (induction k)
  case 0
  show ?case by (simp add: interval_0)
next
  case (Suc k)
  then have k: "k \<le> 12" by simp
  with Suc.IH have b: "(141419 / 100000) ^ k / 4 \<le> interval fl k"
    "interval fl k \<le> (141421 / 100000) ^ k / 4" by simp_all
  have "(1::rat) \<le> (141419 / 100000) ^ k" by (rule one_le_power) simp
  with b(1) have l: "1 / 4 \<le> interval fl k" by linarith
  have "(141421 / 100000 :: rat) ^ k \<le> (141421 / 100000) ^ 12"
    using k by (intro power_increasing) simp_all
  with hi_pow_12 b(2) have u: "interval fl k \<le> 16" by linarith
  from next_interval_bounds [OF assms l u] b
  show ?case unfolding interval_Suc by simp
qed

lemma interval_under_ceiling:
  assumes "float_rounding fl" "k \<le> 12"
  shows "interval fl k \<le> max_retry_interval"
proof -
  have "k \<le> 13" using assms(2) by simp
  from interval_bounds [OF assms(1) this]
  have b: "interval fl k \<le> (141421 / 100000) ^ k / 4" by simp
  have "(141421 / 100000 :: rat) ^ k \<le> (141421 / 100000) ^ 12"
    using assms(2) by (intro power_increasing) simp_all
  with hi_pow_12 b show ?thesis unfolding max_retry_interval_def by linarith
qed

lemma interval_over_ceiling:
  assumes "float_rounding fl"
  shows "max_retry_interval < interval fl 13"
proof -
  from interval_bounds [OF assms, of 13]
  have "(141419 / 100000) ^ 13 / 4 \<le> interval fl 13" by simp
  with lo_pow_13 show ?thesis unfolding max_retry_interval_def by linarith
qed

section \<open>The retry loop\<close>

lemma sends_append: "sends (cs @ ds) = sends cs @ sends ds"
  by (induction cs rule: sends.induct) simp_all

lemma attempt_sends:
  assumes "attempt (settimeout s (Some r)) = (res, s')"
  shows "sends (calls s') = sends (calls s) @ [query_packet]"
  using assms
  by (auto simp: attempt_def send_def recv_def settimeout_def sends_append
      split: option.splits sum.splits)

lemma retry_loop_returns:
  assumes "float_rounding fl"
  shows "k + n = 12 \<Longrightarrow>
     \<exists>res s' m. retry_loop fl (interval fl k) s = Some (res, s') \<and> 1 \<le> m \<and> m + k \<le> 13 \<and>
       sends (calls s') = sends (calls s) @ replicate m query_packet"
proof (induction n arbitrary: k s)
  case 0
  then have k: "k = 12" by simp
  obtain a s1 where at: "attempt (settimeout s (Some (interval fl k))) = (a, s1)"
    by (cases "attempt (settimeout s (Some (interval fl k)))")
  note sn = attempt_sends [OF at]
  have over: "max_retry_interval < fl (interval fl k * retry_delay_factor fl)"
    using interval_over_ceiling [OF assms] unfolding k
    by (simp add: interval_Suc [symmetric] eval_nat_numeral)
  have "\<exists>res. retry_loop fl (interval fl k) s = Some (res, s1)"
    by (subst retry_loop.simps) (simp add: at over split: sum.splits)
  then obtain res where "retry_loop fl (interval fl k) s = Some (res, s1)" ..
  with sn k show ?case
    by (intro exI [where x = res] exI [where x = s1] exI [where x = 1]) simp
next
  case (Suc n)
  then have k: "Suc k \<le> 12" by simp
  obtain a s1 where at: "attempt (settimeout s (Some (interval fl k))) = (a, s1)"
    by (cases "attempt (settimeout s (Some (interval fl k)))")
  note sn = attempt_sends [OF at]
  have under: "\<not> max_retry_interval < fl (interval fl k * retry_delay_factor fl)"
    using interval_under_ceiling [OF assms k] by (simp add: interval_Suc)
  show ?case
  proof (cases "a = Inl socket_timeout")
    case True
    have step: "retry_loop fl (interval fl k) s = retry_loop fl (interval fl (Suc k)) s1"
      by (subst retry_loop.simps) (simp add: at True under interval_Suc)
    from Suc.prems have "Suc k + n = 12" by simp
    from Suc.IH [OF this, of s1] obtain res s' m where
      r: "retry_loop fl (interval fl (Suc k)) s1 = Some (res, s')"
      and m: "1 \<le> m" "m + Suc k \<le> 13"
      and c: "sends (calls s') = sends (calls s1) @ replicate m query_packet"
      by blast
    have "sends (calls s') = sends (calls s) @ replicate (Suc m) query_packet"
      unfolding c sn by simp
    with r m step show ?thesis
      by (intro exI [where x = res] exI [where x = s'] exI [where x = "Suc m"]) simp
  next
    case False
    have "\<exists>res. retry_loop fl (interval fl k) s = Some (res, s1)"
      using False by (subst retry_loop.simps) (simp add: at split: sum.splits)
    then obtain res where "retry_loop fl (interval fl k) s = Some (res, s1)" ..
    with sn k show ?thesis
      by (intro exI [where x = res] exI [where x = s1] exI [where x = 1]) simp
  qed
qed

lemma attempt_silent:
  assumes "\<forall>n. send_answer s n = None" "\<forall>n. recv_answer s n = Inl socket_timeout"
  shows "attempt (settimeout s (Some r)) =
     (Inl socket_timeout,
      s\<lparr>timeout := Some r, calls := calls s @ timed_out_attempt_calls r\<rparr>)"
  using assms
  by (simp add: attempt_def send_def recv_def settimeout_def timed_out_attempt_calls_def)

lemma retry_loop_silent:
  assumes "float_rounding fl"
  shows "k + n = 12 \<Longrightarrow> \<forall>i. send_answer s i = None \<Longrightarrow>
     \<forall>i. recv_answer s i = Inl socket_timeout \<Longrightarrow>
     retry_loop fl (interval fl k) s =
       Some (Inr None,
             s\<lparr>timeout := Some (interval fl 12),
               calls := calls s @ concat (map (\<lambda>j. timed_out_attempt_calls (interval fl j)) [k..<13])\<rparr>)"
proof (induction n arbitrary: k s)
  case 0
  then have k: "k = 12" by simp
  note at = attempt_silent [OF "0.prems"(2,3), of "interval fl k"]
  have over: "max_retry_interval < fl (interval fl k * retry_delay_factor fl)"
    using interval_over_ceiling [OF assms] unfolding k
    by (simp add: interval_Suc [symmetric] eval_nat_numeral)
  have u: "[12..<13] = [12::nat]" by (simp add: upt_rec)
  show ?case unfolding k
    by (subst retry_loop.simps) (simp add: at [unfolded k] over [unfolded k] u)
next
  case (Suc n)
  then have k: "Suc k \<le> 12" by simp
  note at = attempt_silent [OF Suc.prems(2,3), of "interval fl k"]
  have under: "\<not> max_retry_interval < fl (interval fl k * retry_delay_factor fl)"
    using interval_under_ceiling [OF assms k] by (simp add: interval_Suc)
  let ?s1 = "s\<lparr>timeout := Some (interval fl k),
                calls := calls s @ timed_out_attempt_calls (interval fl k)\<rparr>"
  have step: "retry_loop fl (interval fl k) s = retry_loop fl (interval fl (Suc k)) ?s1"
    by (subst retry_loop.simps) (simp add: at under interval_Suc)
  have "Suc k + n = 12" using Suc.prems(1) by simp
  moreover have "\<forall>i. send_answer ?s1 i = None" "\<forall>i. recv_answer ?s1 i = Inl socket_timeout"
    using Suc.prems(2,3) by simp_all
  ultimately have "retry_loop fl (interval fl (Suc k)) ?s1 =
       Some (Inr None,
             ?s1\<lparr>timeout := Some (interval fl 12),
               calls := calls ?s1 @ concat (map (\<lambda>j. timed_out_attempt_calls (interval fl j)) [Suc k..<13])\<rparr>)"
    by (rule Suc.IH)
  moreover have "[k..<13] = k # [Suc k..<13]"
    using k by (simp add: upt_rec)
  ultimately show ?case unfolding step by simp
qed

lemma exact_rounding: "float_rounding (\<lambda>x. x)"
  by (simp add: float_rounding_def)

lemma query_packet_bytes: "query_packet = [65, 114, 101, 121, 111, 117, 79, 75]"
  by (simp add: query_packet_def)

lemma faulty_run:
  "get_health_report (\<lambda>x. x) faulty =
     Some (Inl (other_exception 111),
           faulty\<lparr>calls := [SetTimeout (Some (1 / 4)), Send query_packet, Recv 2048,
                             SetTimeout (Some (7071 / 20000)), Send query_packet, Recv 2048,
                             SetTimeout None]\<rparr>)"
  by (simp add: get_health_report_def retry_loop.simps attempt_def send_def recv_def
      settimeout_def gettimeout_def faulty_def retry_delay_factor_def max_retry_interval_def Let_def)

lemma answering_run:
  "get_health_report (\<lambda>x. x) answering =
     Some (Inr (Some [5, 55, 2, 11, 241, 5, 76, 200]),
           answering\<lparr>calls := [SetTimeout (Some (1 / 4)), Send query_packet, Recv 2048,
                             SetTimeout (Some (7071 / 20000)), Send query_packet, Recv 2048,
                             SetTimeout (Some (49999041 / 100000000)), Send query_packet, Recv 2048,
                             SetTimeout (Some 2)]\<rparr>)"
  by (simp add: get_health_report_def retry_loop.simps attempt_def send_def recv_def
      settimeout_def gettimeout_def answering_def retry_delay_factor_def max_retry_interval_def Let_def)

lemma sends_timed_out_attempts:
  "sends (concat (map (\<lambda>k. timed_out_attempt_calls (f k)) ks)) =
     replicate (length ks) query_packet"
  by (induction ks) (simp_all add: sends_append timed_out_attempt_calls_def)

lemma length_timed_out_attempts:
  "length (concat (map (\<lambda>k. timed_out_attempt_calls (f k)) ks)) = 3 * length ks"
  by (induction ks) (simp_all add: timed_out_attempt_calls_def)

lemma get_health_report_returns:
  assumes "float_rounding fl"
  shows "\<exists>res s' m. get_health_report fl s = Some (res, s') \<and> timeout s' = timeout s \<and>
           last (calls s') = SetTimeout (timeout s) \<and> 1 \<le> m \<and> m \<le> 13 \<and>
           sends (calls s') = sends (calls s) @ replicate m query_packet"
proof -
  have "0 + 12 = (12::nat)" by simp
  from retry_loop_returns [OF assms this, of s] obtain res s1 m where
    r: "retry_loop fl (1 / 4) s = Some (res, s1)"
    and m: "1 \<le> m" "m \<le> 13"
    and c: "sends (calls s1) = sends (calls s) @ replicate m query_packet"
    unfolding interval_0 by auto
  let ?s' = "settimeout s1 (timeout s)"
  have "get_health_report fl s = Some (res, ?s')"
    by (simp add: get_health_report_def gettimeout_def r)
  moreover have "timeout ?s' = timeout s" "last (calls ?s') = SetTimeout (timeout s)"
    by (simp_all add: settimeout_def)
  moreover have "sends (calls ?s') = sends (calls s) @ replicate m query_packet"
    by (simp add: settimeout_def sends_append c)
  ultimately show ?thesis using m by blast
qed

lemma get_health_report_silent:
  assumes "float_rounding fl"
    and "\<forall>n. send_answer s n = None"
    and "\<forall>n. recv_answer s n = Inl socket_timeout"
  shows "get_health_report fl s =
     Some (Inr None,
           s\<lparr>calls := calls s @
                 concat (map (\<lambda>k. timed_out_attempt_calls (interval fl k)) [0..<13]) @
                 [SetTimeout (timeout s)]\<rparr>)"
proof -
  have "0 + 12 = (12::nat)" by simp
  from retry_loop_silent [OF assms(1) this assms(2,3)]
  show ?thesis
    by (simp add: get_health_report_def gettimeout_def settimeout_def interval_0)
qed

section \<open>The claims about the codec\<close>

text \<open>
  C6: the checksum \<open>adler32\<close> is a function of the bytes alone, is defined on every byte
  sequence (on the empty one it is 1), and its value lies in \<open>[0, 2\<^sup>3\<^sup>2)\<close>: it is the
  library's result modulo \<open>2\<^sup>3\<^sup>2\<close>, the same number whether the library returns the
  checksum unsigned or as a signed 32-bit value.
\<close>

theorem adler32_unsigned_32_bit:
  "0 \<le> adler32 data \<and> adler32 data < 2 ^ 32 \<and>
   adler32 data = zlib_adler32 data mod 2 ^ 32 \<and>
   adler32_py2 data = adler32 data \<and> adler32 [] = 1"
  using adler32_range [of data] adler32_py2_eq [of data] adler32_empty
  by (simp add: adler32_def)

text \<open>
  C8: a buffer of fewer than four bytes cannot hold the checksum field; both decoders
  fail on it with the exception of \<open>struct.unpack\<close> (the malformed-packet condition), and
  return no settings.
\<close>

theorem short_buffer_fails:
  assumes "length p < 4"
  shows "parse_health_report p = Inl struct_error \<and> variable_settings p = Inl struct_error"
proof -
  have "length (take 4 p) \<noteq> 4" using assms by simp
  then have "unpack_L (take 4 p) = Inl struct_error" by (rule unpack_L_fails)
  then show ?thesis
    by (simp add: parse_health_report_def variable_settings_def)
qed

theorem short_buffer_fails_witness:
  "length [1, 2, 3 :: byte] < 4 \<and> parse_health_report [1, 2, 3] = Inl struct_error \<and>
   variable_settings [1, 2, 3] = Inl struct_error \<and> variable_settings [] = Inl struct_error"
  using short_buffer_fails [of "[1, 2, 3]"] short_buffer_fails [of "[]"] by simp

text \<open>
  C1: on a buffer that holds the checksum field, the strict decoder \<open>variable_settings\<close>
  raises \<open>ValueError\<close> with the buffer, the checksum computed over the bytes after the
  field and the checksum read from the field exactly when the two differ, and raises
  nothing else; when they are equal it returns the list of decoded settings.
\<close>

theorem variable_settings_strict:
  assumes "4 \<le> length p"
    and "expected = adler32 (drop 4 p)"
    and "received =
           uint (p ! 0) * 2 ^ 24 + uint (p ! 1) * 2 ^ 16 + uint (p ! 2) * 2 ^ 8 + uint (p ! 3)"
  shows "((variable_settings p = Inl (ValueError p expected received)) = (expected \<noteq> received)) \<and>
         ((\<exists>e. variable_settings p = Inl e) = (expected \<noteq> received)) \<and>
         (expected = received \<longrightarrow>
            variable_settings p = variable_settings_list p \<and>
            (\<exists>settings. variable_settings p = Inr settings))"
proof -
  obtain settings where l: "variable_settings_list p = Inr settings"
    using variable_settings_list_records [OF assms(1)] by blast
  have "parse_health_report p = Inr (settings, expected, received)"
    using parse_health_report_four [OF assms(1)] l
    unfolding variable_settings_list_records [OF assms(1)] assms(2,3) by simp
  then have "variable_settings p =
      (if expected \<noteq> received then Inl (ValueError p expected received) else Inr settings)"
    by (simp add: variable_settings_def)
  with l show ?thesis by auto
qed

theorem variable_settings_strict_witness:
  "4 \<le> length [5, 55, 2, 12, 241, 5, 76, 200 :: byte] \<and>
   variable_settings [5, 55, 2, 12, 241, 5, 76, 200] =
     Inl (ValueError [5, 55, 2, 12, 241, 5, 76, 200] 87491083 87491084) \<and>
   4 \<le> length [5, 55, 2, 11, 241, 5, 76, 200 :: byte] \<and>
   variable_settings [5, 55, 2, 11, 241, 5, 76, 200] = Inr [(0, 61701, 76, 200)]"
proof -
  let ?bad = "[5, 55, 2, 12, 241, 5, 76, 200] :: bytes"
  let ?good = "[5, 55, 2, 11, 241, 5, 76, 200] :: bytes"
  have h: "4 \<le> length ?bad" "4 \<le> length ?good" by simp_all
  have e: "87491083 = adler32 (drop 4 ?bad)" "87491083 = adler32 (drop 4 ?good)"
    by (simp_all add: adler32_example)
  have r: "87491084 = uint (?bad ! 0) * 2 ^ 24 + uint (?bad ! 1) * 2 ^ 16 +
             uint (?bad ! 2) * 2 ^ 8 + uint (?bad ! 3)"
    "87491083 = uint (?good ! 0) * 2 ^ 24 + uint (?good ! 1) * 2 ^ 16 +
             uint (?good ! 2) * 2 ^ 8 + uint (?good ! 3)"
    by simp_all
  have "variable_settings ?bad = Inl (ValueError ?bad 87491083 87491084)"
    using variable_settings_strict [OF h(1) e(1) r(1)] by simp
  moreover have "variable_settings ?good = variable_settings_list ?good"
    using variable_settings_strict [OF h(2) e(2) r(2)] by simp
  moreover have "variable_settings_list ?good = Inr [(0, 61701, 76, 200)]"
    unfolding variable_settings_list_records [OF h(2)] by simp
  ultimately show ?thesis using h by simp
qed

text \<open>
  C2: for a variable index, a sender id and a value in 0..255, \<open>set_packet\<close> returns
  eight bytes: bytes 4 to 7 are \<open>0xF1\<close>, the variable, the sender and the value, and bytes
  0 to 3 are the checksum of those four bytes, most significant byte first.
\<close>

theorem set_packet_layout:
  assumes "0 \<le> variable \<and> variable \<le> 255"
    and "0 \<le> sender \<and> sender \<le> 255"
    and "0 \<le> val \<and> val \<le> 255"
  shows "\<exists>packet. set_packet variable sender val = Inr packet \<and> length packet = 8 \<and>
           map uint (drop 4 packet) = [241, variable, sender, val] \<and>
           uint (packet ! 0) * 2 ^ 24 + uint (packet ! 1) * 2 ^ 16 +
             uint (packet ! 2) * 2 ^ 8 + uint (packet ! 3) = adler32 (drop 4 packet)"
proof -
  have ok: "ubyte_ok variable" "ubyte_ok sender" "ubyte_ok val"
    using assms by (simp_all add: ubyte_ok_def)
  from set_packet_shape [OF ok] obtain b3 b2 b1 b0 pv ps px where
    e: "set_packet variable sender val = Inr [b3, b2, b1, b0, 241, pv, ps, px]"
    and f: "uint pv = variable" "uint ps = sender" "uint px = val"
    and c: "uint b3 * 2 ^ 24 + uint b2 * 2 ^ 16 + uint b1 * 2 ^ 8 + uint b0 =
            adler32 [241, pv, ps, px]"
    by blast
  let ?packet = "[b3, b2, b1, b0, 241, pv, ps, px]"
  have "length ?packet = 8" by simp
  moreover have d: "drop 4 ?packet = [241, pv, ps, px]" by simp
  moreover have "map uint [241, pv, ps, px] = [241, variable, sender, val]"
    using f by simp
  moreover have "uint (?packet ! 0) * 2 ^ 24 + uint (?packet ! 1) * 2 ^ 16 +
             uint (?packet ! 2) * 2 ^ 8 + uint (?packet ! 3) = adler32 [241, pv, ps, px]"
    unfolding nth_four by (rule c)
  ultimately show ?thesis using e by (metis (no_types))
qed

theorem set_packet_layout_witness:
  "(0::int) \<le> 5 \<and> (5::int) \<le> 255 \<and> (0::int) \<le> 76 \<and> (76::int) \<le> 255 \<and>
   (0::int) \<le> 200 \<and> (200::int) \<le> 255 \<and>
   set_packet 5 76 200 = Inr [5, 55, 2, 11, 241, 5, 76, 200] \<and>
   (\<exists>packet. set_packet 5 76 200 = Inr packet \<and> length packet = 8 \<and>
           map uint (drop 4 packet) = [241, 5, 76, 200] \<and>
           uint (packet ! 0) * 2 ^ 24 + uint (packet ! 1) * 2 ^ 16 +
             uint (packet ! 2) * 2 ^ 8 + uint (packet ! 3) = adler32 (drop 4 packet))"
proof -
  have h: "(0::int) \<le> 5 \<and> (5::int) \<le> 255" "(0::int) \<le> 76 \<and> (76::int) \<le> 255"
    "(0::int) \<le> 200 \<and> (200::int) \<le> 255" by simp_all
  from set_packet_layout [OF h] set_packet_example h show ?thesis by blast
qed

text \<open>
  C3: on a buffer of at least four bytes the decoder reads the bytes from offset 4 on
  as consecutive four-byte records; record \<open>k\<close> gives the tuple of \<open>k\<close>, the big-endian
  16-bit timestamp, the sender byte and the value byte. There are as many settings as
  complete records, so bytes after the last complete record are dropped and nothing is
  raised.
\<close>

theorem decoder_records:
  assumes "4 \<le> length p"
  shows "\<exists>settings expected received.
           parse_health_report p = Inr (settings, expected, received) \<and>
           variable_settings_list p = Inr settings \<and>
           length settings = (length p - 4) div 4 \<and>
           (\<forall>k < length settings.
              settings ! k =
                (int k, uint (p ! (4 + 4 * k)) * 2 ^ 8 + uint (p ! (4 + 4 * k + 1)),
                 uint (p ! (4 + 4 * k + 2)), uint (p ! (4 + 4 * k + 3))))"
proof -
  let ?f = "\<lambda>k. (int k, uint (p ! (4 * k + 4)) * 2 ^ 8 + uint (p ! (4 * k + 5)),
                     uint (p ! (4 * k + 6)), uint (p ! (4 * k + 7)))"
  let ?settings = "map ?f [0..<(length p - 4) div 4]"
  have "\<forall>k < length ?settings. ?settings ! k =
                (int k, uint (p ! (4 + 4 * k)) * 2 ^ 8 + uint (p ! (4 + 4 * k + 1)),
                 uint (p ! (4 + 4 * k + 2)), uint (p ! (4 + 4 * k + 3)))"
    by (simp add: add.commute)
  moreover have "length ?settings = (length p - 4) div 4" by simp
  ultimately show ?thesis
    using parse_health_report_four [OF assms] variable_settings_list_records [OF assms]
    by blast
qed

theorem decoder_records_witness:
  "4 \<le> length [0, 0, 0, 0, 1, 2, 3, 4, 9, 9 :: byte] \<and>
   variable_settings_list [0, 0, 0, 0, 1, 2, 3, 4, 9, 9] = Inr [(0, 258, 3, 4)] \<and>
   parse_health_report [0, 0, 0, 0, 1, 2, 3, 4, 9, 9] = Inr ([(0, 258, 3, 4)], 4784157, 0)"
proof -
  let ?p = "[0, 0, 0, 0, 1, 2, 3, 4, 9, 9] :: bytes"
  have h: "4 \<le> length ?p" by simp
  from decoder_records [OF h] obtain settings expected received where
    a: "parse_health_report ?p = Inr (settings, expected, received)"
    and b: "variable_settings_list ?p = Inr settings"
    and c: "length settings = (length ?p - 4) div 4"
    and d: "\<forall>k < length settings. settings ! k =
                (int k, uint (?p ! (4 + 4 * k)) * 2 ^ 8 + uint (?p ! (4 + 4 * k + 1)),
                 uint (?p ! (4 + 4 * k + 2)), uint (?p ! (4 + 4 * k + 3)))"
    by blast
  from c have l: "length settings = 1" by simp
  with d have "settings ! 0 = (0, 258, 3, 4)" by simp
  with l have s: "settings = [(0, 258, 3, 4)]"
    by (cases settings) simp_all
  have "adler32 (drop 4 ?p) = 4784157"
    by (simp add: adler32_def zlib_adler32_def adler_step_def)
  then have "expected = 4784157" "received = 0"
    using a unfolding parse_health_report_four [OF h] by simp_all
  with a b s h show ?thesis by simp
qed

text \<open>
  C5: parsing the packet that \<open>set_packet\<close> builds from in-range fields gives a computed
  checksum equal to the checksum read from the packet, so the strict decoder accepts it.
\<close>

theorem set_packet_checksum_round_trip:
  assumes "0 \<le> variable \<and> variable \<le> 255"
    and "0 \<le> sender \<and> sender \<le> 255"
    and "0 \<le> val \<and> val \<le> 255"
  shows "\<exists>packet settings checksum.
           set_packet variable sender val = Inr packet \<and>
           parse_health_report packet = Inr (settings, checksum, checksum) \<and>
           checksum = adler32 (drop 4 packet) \<and>
           variable_settings packet = Inr settings"
proof -
  have ok: "ubyte_ok variable" "ubyte_ok sender" "ubyte_ok val"
    using assms by (simp_all add: ubyte_ok_def)
  from set_packet_shape [OF ok] obtain b3 b2 b1 b0 pv ps px where
    e: "set_packet variable sender val = Inr [b3, b2, b1, b0, 241, pv, ps, px]"
    and c: "uint b3 * 2 ^ 24 + uint b2 * 2 ^ 16 + uint b1 * 2 ^ 8 + uint b0 =
            adler32 [241, pv, ps, px]"
    by blast
  let ?packet = "[b3, b2, b1, b0, 241, pv, ps, px]"
  have l: "4 \<le> length ?packet" by simp
  have d: "drop 4 ?packet = [241, pv, ps, px]" by simp
  have r: "uint (?packet ! 0) * 2 ^ 24 + uint (?packet ! 1) * 2 ^ 16 +
             uint (?packet ! 2) * 2 ^ 8 + uint (?packet ! 3) = adler32 (drop 4 ?packet)"
    unfolding nth_four d by (rule c)
  obtain settings where
    p: "parse_health_report ?packet = Inr (settings, adler32 (drop 4 ?packet), adler32 (drop 4 ?packet))"
    using parse_health_report_four [OF l] unfolding r by blast
  then have "variable_settings ?packet = Inr settings"
    by (simp add: variable_settings_def)
  with e p show ?thesis by blast
qed

theorem set_packet_checksum_round_trip_witness:
  "(0::int) \<le> 5 \<and> (5::int) \<le> 255 \<and> (0::int) \<le> 76 \<and> (76::int) \<le> 255 \<and>
   (0::int) \<le> 200 \<and> (200::int) \<le> 255 \<and>
   (\<exists>settings. parse_health_report [5, 55, 2, 11, 241, 5, 76, 200] =
       Inr (settings, 87491083, 87491083))"
proof -
  have h: "(0::int) \<le> 5 \<and> (5::int) \<le> 255" "(0::int) \<le> 76 \<and> (76::int) \<le> 255"
    "(0::int) \<le> 200 \<and> (200::int) \<le> 255" by simp_all
  from set_packet_checksum_round_trip [OF h] obtain packet settings checksum where
    e: "set_packet 5 76 200 = Inr packet"
    and p: "parse_health_report packet = Inr (settings, checksum, checksum)"
    and c: "checksum = adler32 (drop 4 packet)" by blast
  from e have k: "packet = [5, 55, 2, 11, 241, 5, 76, 200]"
    by (simp add: set_packet_example)
  have "checksum = 87491083"
    unfolding c k by (simp add: adler32_example)
  with p k have "parse_health_report [5, 55, 2, 11, 241, 5, 76, 200] =
       Inr (settings, 87491083, 87491083)"
    by simp
  then show ?thesis using h by blast
qed

section \<open>The claims about the socket\<close>

text \<open>
  C9: when the variable, the sender or the value is outside 0..255, \<open>set_packet\<close> raises
  the exception of \<open>struct.pack\<close> and \<open>set_variable\<close> passes it on with the socket as it
  was: no call has been made on it, so nothing has been sent.
\<close>

theorem set_variable_rejects_before_send:
  assumes "\<not> (0 \<le> variable \<and> variable \<le> 255 \<and> 0 \<le> sender \<and> sender \<le> 255 \<and>
              0 \<le> val \<and> val \<le> 255)"
  shows "set_packet variable sender val = Inl struct_error \<and>
         set_variable s variable sender val = (Inl struct_error, s)"
proof -
  have "pack_BBBB 241 variable sender val = Inl struct_error"
    using assms by (auto simp: pack_BBBB_def ubyte_ok_def)
  then have "set_packet variable sender val = Inl struct_error"
    by (simp add: set_packet_def)
  then show ?thesis by (simp add: set_variable_def)
qed

theorem set_variable_rejects_before_send_witness:
  "\<not> (0 \<le> (256::int) \<and> (256::int) \<le> 255 \<and> 0 \<le> (76::int) \<and> (76::int) \<le> 255 \<and>
      0 \<le> (200::int) \<and> (200::int) \<le> 255) \<and>
   set_packet 256 76 200 = Inl struct_error \<and>
   set_variable silent 256 76 200 = (Inl struct_error, silent) \<and>
   calls (snd (set_variable silent 256 76 200)) = [] \<and>
   calls (snd (set_variable silent 5 76 (-1))) = []"
proof -
  have h: "\<not> (0 \<le> (256::int) \<and> (256::int) \<le> 255 \<and> 0 \<le> (76::int) \<and> (76::int) \<le> 255 \<and>
      0 \<le> (200::int) \<and> (200::int) \<le> 255)"
    and h': "\<not> (0 \<le> (5::int) \<and> (5::int) \<le> 255 \<and> 0 \<le> (76::int) \<and> (76::int) \<le> 255 \<and>
      0 \<le> (-1::int) \<and> (-1::int) \<le> 255)" by simp_all
  have "calls silent = []" by (simp add: silent_def)
  with set_variable_rejects_before_send [OF h, of silent]
    set_variable_rejects_before_send [OF h', of silent] h
  show ?thesis by simp
qed

text \<open>
  C4: \<open>get_health_report\<close> starts with a retry interval of a quarter of a second,
  multiplies it by \<open>1.4142\<close> after a timeout and returns \<open>None\<close> once the new interval is
  above 16 seconds. The loop has no counter: on a socket whose every \<open>recv\<close> times out
  the intervals alone end it, after thirteen attempts (intervals 0 to 12 stay at or
  below the ceiling, interval 13 is above it), and the calls made are those thirteen
  attempts followed by the restoring \<open>settimeout\<close>.
\<close>

theorem get_health_report_gives_up:
  assumes "float_rounding fl"
    and "\<forall>n. send_answer s n = None"
    and "\<forall>n. recv_answer s n = Inl socket_timeout"
  shows "get_health_report fl s =
           Some (Inr None,
                 s\<lparr>calls := calls s @
                       concat (map (\<lambda>k. timed_out_attempt_calls (interval fl k)) [0..<13]) @
                       [SetTimeout (timeout s)]\<rparr>) \<and>
         interval fl 0 = 1 / 4 \<and>
         (\<forall>k. interval fl (Suc k) = fl (interval fl k * fl (14142 / 10000))) \<and>
         (\<forall>k \<le> 12. interval fl k \<le> 16) \<and> 16 < interval fl 13"
proof -
  have "\<forall>k. interval fl (Suc k) = fl (interval fl k * fl (14142 / 10000))"
    by (simp add: interval_Suc retry_delay_factor_def)
  moreover have "\<forall>k \<le> 12. interval fl k \<le> 16"
    using interval_under_ceiling [OF assms(1)] by (simp add: max_retry_interval_def)
  moreover have "16 < interval fl 13"
    using interval_over_ceiling [OF assms(1)] by (simp add: max_retry_interval_def)
  ultimately show ?thesis
    using get_health_report_silent [OF assms] interval_0 [of fl] by blast
qed

theorem get_health_report_gives_up_witness:
  "float_rounding (\<lambda>x. x) \<and> (\<forall>n. send_answer silent n = None) \<and>
   (\<forall>n. recv_answer silent n = Inl socket_timeout) \<and>
   (\<exists>s'. get_health_report (\<lambda>x. x) silent = Some (Inr None, s') \<and>
         timeout s' = Some 5 \<and> length (calls s') = 40 \<and>
         sends (calls s') = replicate 13 query_packet) \<and>
   interval (\<lambda>x. x) 1 = 7071 / 20000 \<and>
   interval (\<lambda>x. x) 12 \<le> 16 \<and> 16 < interval (\<lambda>x. x) 13"
proof -
  have h: "\<forall>n. send_answer silent n = None" "\<forall>n. recv_answer silent n = Inl socket_timeout"
    by (simp_all add: silent_def)
  note t = get_health_report_gives_up [OF exact_rounding h]
  let ?s' = "silent\<lparr>calls := calls silent @
                       concat (map (\<lambda>k. timed_out_attempt_calls (interval (\<lambda>x. x) k)) [0..<13]) @
                       [SetTimeout (timeout silent)]\<rparr>"
  have "get_health_report (\<lambda>x. x) silent = Some (Inr None, ?s')" using t by simp
  moreover have "timeout ?s' = Some 5" by (simp add: silent_def)
  moreover have "length (calls ?s') = 40"
    by (simp add: silent_def length_timed_out_attempts)
  moreover have "sends (calls ?s') = replicate 13 query_packet"
    by (simp add: silent_def sends_append sends_timed_out_attempts)
  moreover have "interval (\<lambda>x. x) 1 = 7071 / 20000"
  proof -
    from t have a: "interval (\<lambda>x. x) 0 = 1 / 4"
      and b: "\<forall>k. interval (\<lambda>x. x) (Suc k) = interval (\<lambda>x. x) k * (14142 / 10000)"
      by blast+
    from b have "interval (\<lambda>x. x) (Suc 0) = interval (\<lambda>x. x) 0 * (14142 / 10000)" ..
    then show ?thesis unfolding a by simp
  qed
  moreover have "interval (\<lambda>x. x) 12 \<le> 16" "16 < interval (\<lambda>x. x) 13"
    using t by simp_all
  ultimately show ?thesis using exact_rounding h by blast
qed

text \<open>
  C7: \<open>get_health_report\<close> reads the socket's timeout before the loop and sets it back on
  the way out, whatever leaves the loop: received bytes, \<open>None\<close> after the last timeout,
  or an exception of \<open>send\<close> or \<open>recv\<close> other than a timeout. For every behaviour of the
  socket the call ends, its last call on the socket is that \<open>settimeout\<close>, and the timeout
  afterwards is the timeout before.
\<close>

theorem get_health_report_restores_timeout:
  assumes "float_rounding fl"
  shows "\<exists>res s'. get_health_report fl s = Some (res, s') \<and>
           gettimeout s' = gettimeout s \<and> last (calls s') = SetTimeout (gettimeout s)"
  using get_health_report_returns [OF assms, of s] unfolding gettimeout_def by blast

theorem get_health_report_restores_timeout_witness:
  "float_rounding (\<lambda>x. x) \<and>
   (\<exists>s'. get_health_report (\<lambda>x. x) answering = Some (Inr (Some [5, 55, 2, 11, 241, 5, 76, 200]), s') \<and>
         gettimeout s' = Some 2) \<and>
   (\<exists>s'. get_health_report (\<lambda>x. x) silent = Some (Inr None, s') \<and> gettimeout s' = Some 5) \<and>
   (\<exists>s'. get_health_report (\<lambda>x. x) faulty = Some (Inl (other_exception 111), s') \<and>
         gettimeout s' = None)"
proof -
  note t = get_health_report_restores_timeout [OF exact_rounding]
  have h: "\<forall>n. send_answer silent n = None" "\<forall>n. recv_answer silent n = Inl socket_timeout"
    by (simp_all add: silent_def)
  from t [of answering] obtain ra sa where
    "get_health_report (\<lambda>x. x) answering = Some (ra, sa)" "gettimeout sa = gettimeout answering"
    by blast
  then have a: "\<exists>s'. get_health_report (\<lambda>x. x) answering =
        Some (Inr (Some [5, 55, 2, 11, 241, 5, 76, 200]), s') \<and> gettimeout s' = Some 2"
    unfolding answering_run by (simp add: gettimeout_def answering_def)
  from t [of silent] obtain rs ss where
    "get_health_report (\<lambda>x. x) silent = Some (rs, ss)" "gettimeout ss = gettimeout silent"
    by blast
  then have b: "\<exists>s'. get_health_report (\<lambda>x. x) silent = Some (Inr None, s') \<and>
        gettimeout s' = Some 5"
    unfolding get_health_report_silent [OF exact_rounding h]
    by (simp add: gettimeout_def silent_def)
  from t [of faulty] obtain rf sf where
    "get_health_report (\<lambda>x. x) faulty = Some (rf, sf)" "gettimeout sf = gettimeout faulty"
    by blast
  then have c: "\<exists>s'. get_health_report (\<lambda>x. x) faulty =
        Some (Inl (other_exception 111), s') \<and> gettimeout s' = None"
    unfolding faulty_run by (simp add: gettimeout_def faulty_def)
  from exact_rounding a b c show ?thesis by blast
qed

text \<open>
  C10: every payload \<open>get_health_report\<close> hands to \<open>send\<close>, on the first attempt and on
  each retry, is \<open>query_packet\<close>, the eight ASCII bytes of \<open>AreyouOK\<close>; there is at least
  one attempt and there are at most thirteen.
\<close>

theorem get_health_report_sends_query:
  assumes "float_rounding fl"
  shows "\<exists>res s' m. get_health_report fl s = Some (res, s') \<and> 1 \<le> m \<and> m \<le> 13 \<and>
           sends (calls s') = sends (calls s) @ replicate m query_packet \<and>
           query_packet = map (\<lambda>c. word_of_nat (of_char c)) ''AreyouOK'' \<and>
           query_packet = [65, 114, 101, 121, 111, 117, 79, 75]"
  using get_health_report_returns [OF assms, of s] query_packet_bytes query_packet_def
  by blast

theorem get_health_report_sends_query_witness:
  "float_rounding (\<lambda>x. x) \<and>
   (\<exists>res s'. get_health_report (\<lambda>x. x) answering = Some (res, s') \<and>
      sends (calls s') = [query_packet, query_packet, query_packet]) \<and>
   length query_packet = 8"
proof -
  from get_health_report_sends_query [OF exact_rounding, of answering]
  obtain res s' where
    r: "get_health_report (\<lambda>x. x) answering = Some (res, s')"
    and q: "query_packet = [65, 114, 101, 121, 111, 117, 79, 75]"
    by blast
  from r have "s' = answering\<lparr>calls := [SetTimeout (Some (1 / 4)), Send query_packet, Recv 2048,
                             SetTimeout (Some (7071 / 20000)), Send query_packet, Recv 2048,
                             SetTimeout (Some (49999041 / 100000000)), Send query_packet, Recv 2048,
                             SetTimeout (Some 2)]\<rparr>"
    unfolding answering_run by simp
  then have "sends (calls s') = [query_packet, query_packet, query_packet]" by simp
  moreover have "length query_packet = 8" unfolding q by simp
  ultimately show ?thesis using r exact_rounding by blast
qed

end
